theory Spec2Isabelle
  imports Main
begin

section \<open>Python values and library functions used by \<^verbatim>\<open>automatic_release.py\<close>\<close>

text \<open>
  A Python \<^verbatim>\<open>str\<close> is modelled as a \<^typ>\<open>string\<close>: each \<^typ>\<open>char\<close> stands for one
  character of the Python string, identified by its code point (so the model covers the
  strings whose code points are below 256). Python integers are unbounded and modelled as
  \<^typ>\<open>int\<close>; converting between \<^verbatim>\<open>int\<close> and \<^verbatim>\<open>str\<close> in base 10 raises
  \<^verbatim>\<open>ValueError\<close> beyond \<open>max_str_digits\<close> digits, the interpreter's default limit.
  Exceptions are values of \<open>py_error\<close>; a computation that may raise returns
  \<open>py_error + 'a\<close>.
\<close>

datatype py_error = IndexError | TypeError | ValueError

definition bind_err :: "py_error + 'a \<Rightarrow> ('a \<Rightarrow> py_error + 'b) \<Rightarrow> py_error + 'b" where
  "bind_err m f = (case m of Inl e \<Rightarrow> Inl e | Inr x \<Rightarrow> f x)"

definition code_point :: "char \<Rightarrow> nat" where
  "code_point c = of_char c"

text \<open>\<^verbatim>\<open>str.isspace\<close> on one character: the white space characters below code point 256.\<close>

definition is_space :: "char \<Rightarrow> bool" where
  "is_space c =
     (let n = code_point c
      in (9 \<le> n \<and> n \<le> 13) \<or> (28 \<le> n \<and> n \<le> 32) \<or> n = 133 \<or> n = 160)"

text \<open>The line boundaries of \<^verbatim>\<open>str.splitlines\<close> below code point 256.\<close>

definition is_linebreak :: "char \<Rightarrow> bool" where
  "is_linebreak c =
     (let n = code_point c
      in (10 \<le> n \<and> n \<le> 13) \<or> (28 \<le> n \<and> n \<le> 30) \<or> n = 133)"

text \<open>\<^verbatim>\<open>s.strip()\<close>: leading and trailing white space removed.\<close>

definition strip :: "string \<Rightarrow> string" where
  "strip s = rev (dropWhile is_space (rev (dropWhile is_space s)))"

text \<open>
  \<^verbatim>\<open>s.splitlines()\<close>: the lines of \<open>s\<close> without their line boundaries. A carriage return
  followed by a line feed is one boundary; a boundary at the very end opens no further
  line, so the empty string has no lines at all. \<open>splitlines_from cur s\<close> scans \<open>s\<close> with
  \<open>cur\<close> the part of the current line already read.
\<close>

fun splitlines_from :: "string \<Rightarrow> string \<Rightarrow> string list" where
  "splitlines_from cur [] = (if cur = [] then [] else [cur])"
| "splitlines_from cur [c] =
     (if is_linebreak c then [cur] else [cur @ [c]])"
| "splitlines_from cur (c # d # cs) =
     (if code_point c = 13 \<and> code_point d = 10 then cur # splitlines_from [] cs
      else if is_linebreak c then cur # splitlines_from [] (d # cs)
      else splitlines_from (cur @ [c]) (d # cs))"

definition splitlines :: "string \<Rightarrow> string list" where
  "splitlines s = splitlines_from [] s"

text \<open>Indexing a list, \<^verbatim>\<open>xs[i]\<close> with \<open>i \<ge> 0\<close>: out of range raises \<^verbatim>\<open>IndexError\<close>.\<close>

definition index :: "'a list \<Rightarrow> nat \<Rightarrow> py_error + 'a" where
  "index xs i = (if i < length xs then Inr (xs ! i) else Inl IndexError)"

subsection \<open>Decimal conversion: \<^verbatim>\<open>str(int)\<close> and \<^verbatim>\<open>int(str)\<close>\<close>

definition is_digit :: "char \<Rightarrow> bool" where
  "is_digit c = (48 \<le> code_point c \<and> code_point c \<le> 57)"

definition digit_char :: "nat \<Rightarrow> char" where
  "digit_char d = char_of (48 + d)"

definition digit_value :: "char \<Rightarrow> nat" where
  "digit_value c = code_point c - 48"

fun digits_of :: "nat \<Rightarrow> string" where
  "digits_of n = (if n < 10 then [digit_char n] else digits_of (n div 10) @ [digit_char (n mod 10)])"

declare digits_of.simps [simp del]

text \<open>
  \<^verbatim>\<open>sys.get_int_max_str_digits()\<close>, by default: the greatest number of digits of an integer
  that \<^verbatim>\<open>str\<close> and \<^verbatim>\<open>int\<close> convert. The sign, white space and underscores do not
  count; leading zeros do.
\<close>

definition max_str_digits :: nat where
  "max_str_digits = 4300"

text \<open>\<^verbatim>\<open>str(i)\<close>, which is also what \<^verbatim>\<open>{i}\<close> formats in an f-string.\<close>

definition py_str :: "int \<Rightarrow> py_error + string" where
  "py_str i =
     (let ds = digits_of (nat \<bar>i\<bar>)
      in if max_str_digits < length ds then Inl ValueError
         else Inr (if i < 0 then CHR ''-'' # ds else ds))"

definition digits_value :: "string \<Rightarrow> nat" where
  "digits_value ds = foldl (\<lambda>acc c. 10 * acc + digit_value c) 0 ds"

text \<open>
  The body of a base-10 integer literal accepted by \<^verbatim>\<open>int(str)\<close>: decimal digits, with
  single underscores allowed between digits.
\<close>

fun int_literal :: "string \<Rightarrow> bool" where
  "int_literal [] = False"
| "int_literal [c] = is_digit c"
| "int_literal (c # d # cs) =
     (is_digit c \<and> (if d = CHR ''_'' then int_literal cs else int_literal (d # cs)))"

text \<open>
  \<^verbatim>\<open>int(s)\<close> for a string: surrounding white space is ignored, one sign may precede the
  literal, anything else raises \<^verbatim>\<open>ValueError\<close>, and so does a literal of more than
  \<open>max_str_digits\<close> digits.
\<close>

definition py_int :: "string \<Rightarrow> py_error + int" where
  "py_int s =
     (let t = strip s;
          neg = (case t of [] \<Rightarrow> False | c # _ \<Rightarrow> c = CHR ''-'');
          body = (case t of [] \<Rightarrow> [] | c # r \<Rightarrow> if c = CHR ''-'' \<or> c = CHR ''+'' then r else t)
      in if int_literal body
         then (let ds = filter (\<lambda>c. c \<noteq> CHR ''_'') body;
                   n = int (digits_value ds)
               in if max_str_digits < length ds then Inl ValueError
                  else Inr (if neg then - n else n))
         else Inl ValueError)"

subsection \<open>Regular expressions: the fragment of \<^verbatim>\<open>re\<close> the program uses\<close>

text \<open>
  The pattern of the program is built from literal characters, a character range
  \<^verbatim>\<open>[lo-hi]\<close>, the greedy repetition \<^verbatim>\<open>+\<close>, capturing groups and concatenation.
\<close>

datatype regex =
    Lit char
  | Range char char
  | Plus regex
  | Group regex
  | Cat regex regex

definition in_range :: "char \<Rightarrow> char \<Rightarrow> char \<Rightarrow> bool" where
  "in_range lo hi c = (code_point lo \<le> code_point c \<and> code_point c \<le> code_point hi)"

text \<open>
  The backtracking matcher, as a list of successes in the order in which \<^verbatim>\<open>re\<close> tries
  them: \<open>rmatch r s\<close> lists, for every way \<open>r\<close> can match a prefix of \<open>s\<close>, the groups
  captured and the rest of \<open>s\<close>. The repetition is greedy: it tries one more iteration
  before it tries to stop, and an iteration that consumed nothing is not repeated. Groups
  are numbered by their opening parenthesis; a group inside a repetition holds what its
  last iteration captured.
\<close>

function rmatch :: "regex \<Rightarrow> string \<Rightarrow> (string list \<times> string) list" where
  "rmatch (Lit c) s = (case s of [] \<Rightarrow> [] | x # xs \<Rightarrow> if x = c then [([], xs)] else [])"
| "rmatch (Range lo hi) s =
     (case s of [] \<Rightarrow> [] | x # xs \<Rightarrow> if in_range lo hi x then [([], xs)] else [])"
| "rmatch (Cat r1 r2) s =
     concat (map (\<lambda>(g1, s1). map (\<lambda>(g2, s2). (g1 @ g2, s2)) (rmatch r2 s1)) (rmatch r1 s))"
| "rmatch (Group r) s =
     map (\<lambda>(g, s1). (take (length s - length s1) s # g, s1)) (rmatch r s)"
| "rmatch (Plus r) s =
     concat (map (\<lambda>(g1, s1).
                (if length s1 < length s then rmatch (Plus r) s1 else []) @ [(g1, s1)])
             (rmatch r s))"
  by pat_completeness auto
termination
  by (relation "measures [\<lambda>(r, s). size r, \<lambda>(r, s). length s]") auto

text \<open>
  A match object: the whole matched text and the captured groups.
  \<^verbatim>\<open>re.fullmatch(r, s)\<close> is the first success that consumed all of \<open>s\<close>, or \<^verbatim>\<open>None\<close>.
\<close>

type_synonym match = "string \<times> string list"

definition fullmatch :: "regex \<Rightarrow> string \<Rightarrow> match option" where
  "fullmatch r s =
     (case find (\<lambda>(g, rest). rest = []) (rmatch r s) of
        None \<Rightarrow> None
      | Some (g, rest) \<Rightarrow> Some (s, g))"

text \<open>\<^verbatim>\<open>m.group(n)\<close>: group 0 is the whole match; a group that does not exist raises.\<close>

definition group :: "match \<Rightarrow> nat \<Rightarrow> py_error + string" where
  "group m n =
     (if n = 0 then Inr (fst m)
      else if n \<le> length (snd m) then Inr (snd m ! (n - 1))
      else Inl IndexError)"

section \<open>The program\<close>

type_synonym version = "int \<times> int \<times> int"

text \<open>
  The part of the world the version resolver reads and writes: the marker file
  \<^verbatim>\<open>VERSION\<close> of the working directory (\<open>None\<close> when \<^verbatim>\<open>os.path.isfile\<close> is false,
  otherwise the text that \<^verbatim>\<open>file.read()\<close> returns) and the tag names that \<^verbatim>\<open>get_tags\<close>
  yields, in the order \<^verbatim>\<open>git tag\<close> prints them.
\<close>

record repo =
  version_file :: "string option"
  git_tags :: "string list"

text \<open>\<^verbatim>\<open>re.compile(r"v([0-9]+)\.([0-9]+)\.([0-9]+)")\<close>\<close>

definition version_tag_regex :: regex where
  "version_tag_regex =
     Cat (Lit CHR ''v'')
    (Cat (Group (Plus (Range CHR ''0'' CHR ''9'')))
    (Cat (Lit CHR ''.'')
    (Cat (Group (Plus (Range CHR ''0'' CHR ''9'')))
    (Cat (Lit CHR ''.'')
         (Group (Plus (Range CHR ''0'' CHR ''9'')))))))"

definition parse_version :: "string \<Rightarrow> py_error + version option" where
  "parse_version version =
     (case fullmatch version_tag_regex version of
        Some result \<Rightarrow>
          bind_err (group result 1) (\<lambda>g1. bind_err (py_int g1) (\<lambda>major.
          bind_err (group result 2) (\<lambda>g2. bind_err (py_int g2) (\<lambda>minor.
          bind_err (group result 3) (\<lambda>g3. bind_err (py_int g3) (\<lambda>patch.
          Inr (Some (major, minor, patch))))))))
      | None \<Rightarrow> Inr None)"

text \<open>
  \<^verbatim>\<open>get_versions\<close> is a generator over the tags; the model returns the list of the values
  it yields. A parsed version is a non-empty tuple, hence true in \<^verbatim>\<open>if result\<close>.
\<close>

fun get_versions :: "string list \<Rightarrow> py_error + version list" where
  "get_versions [] = Inr []"
| "get_versions (tag # tags) =
     bind_err (parse_version tag) (\<lambda>result.
     bind_err (get_versions tags) (\<lambda>rest.
     Inr (case result of Some v \<Rightarrow> v # rest | None \<Rightarrow> rest)))"

definition get_current_version :: "string option \<Rightarrow> py_error + version option" where
  "get_current_version file =
     (case file of
        Some content \<Rightarrow>
          bind_err (index (splitlines content) 0) (\<lambda>line. parse_version (strip line))
      | None \<Rightarrow> Inr (Some (1, 0, 0)))"

text \<open>\<^verbatim>\<open>max(xs)\<close> of a list of integers; the empty list raises \<^verbatim>\<open>ValueError\<close>.\<close>

definition py_max :: "int list \<Rightarrow> py_error + int" where
  "py_max xs = (case xs of [] \<Rightarrow> Inl ValueError | x # rest \<Rightarrow> Inr (fold max rest x))"

text \<open>
  Lines 34 to 40 of \<^verbatim>\<open>get_next_version\<close>, with the current version and the versions of
  the tags as arguments.
\<close>

definition next_version :: "version \<Rightarrow> version list \<Rightarrow> py_error + version" where
  "next_version current_version versions =
     (let bugfix_revs =
            map (\<lambda>v. snd (snd v))
              (filter (\<lambda>v. fst v = fst current_version \<and>
                           fst (snd v) = fst (snd current_version)) versions)
      in if length bugfix_revs = 0
         then Inr (fst current_version, fst (snd current_version), 0)
         else bind_err (py_max bugfix_revs) (\<lambda>m.
              let next_bugfix_rev = m + 1
              in Inr (fst current_version, fst (snd current_version), next_bugfix_rev)))"

text \<open>
  When the marker file does not parse, \<^verbatim>\<open>current_version\<close> is \<^verbatim>\<open>None\<close> and subscripting
  it raises \<^verbatim>\<open>TypeError\<close>: in the condition of the comprehension, at the first version the
  generator yields, or in the return statement when it yields none. The generator parses
  the tags one at a time, so a tag whose parsing raises before any version was yielded
  raises first.
\<close>

fun none_current_version :: "string list \<Rightarrow> py_error" where
  "none_current_version [] = TypeError"
| "none_current_version (tag # tags) =
     (case parse_version tag of
        Inl e \<Rightarrow> e
      | Inr None \<Rightarrow> none_current_version tags
      | Inr (Some v) \<Rightarrow> TypeError)"

text \<open>\<^verbatim>\<open>get_next_version\<close> reads the marker file, then the tags.\<close>

definition get_next_version :: "repo \<Rightarrow> py_error + version" where
  "get_next_version w =
     bind_err (get_current_version (version_file w)) (\<lambda>current_version.
     case current_version of
       Some c \<Rightarrow> bind_err (get_versions (git_tags w)) (\<lambda>versions. next_version c versions)
     | None \<Rightarrow> Inl (none_current_version (git_tags w)))"

text \<open>\<^verbatim>\<open>f"v{version[0]}.{version[1]}.{version[2]}"\<close>\<close>

definition version_string :: "version \<Rightarrow> py_error + string" where
  "version_string version =
     bind_err (py_str (fst version)) (\<lambda>major.
     bind_err (py_str (fst (snd version))) (\<lambda>minor.
     bind_err (py_str (snd (snd version))) (\<lambda>patch.
     Inr (''v'' @ major @ ''.'' @ minor @ ''.'' @ patch))))"

text \<open>
  \<^verbatim>\<open>write_version_file\<close> returns the world it leaves and how it ended. Opening the marker
  file for writing empties it; the text to write is formatted after that, so when
  \<^verbatim>\<open>version_string\<close> raises, the marker file is left empty.
\<close>

definition write_version_file :: "version \<Rightarrow> repo \<Rightarrow> repo \<times> (py_error + unit)" where
  "write_version_file version w =
     (let opened = w\<lparr>version_file := Some ''''\<rparr>
      in case version_string version of
           Inl e \<Rightarrow> (opened, Inl e)
         | Inr s \<Rightarrow> (opened\<lparr>version_file := Some s\<rparr>, Inr ()))"

section \<open>The version pattern of the specification\<close>

text \<open>
  A tag denotes a version when it is \<^verbatim>\<open>v<major>.<minor>.<patch>\<close>, each component one or
  more decimal digits, with no leading or trailing characters: the pattern
  \<^verbatim>\<open>v\d+\.\d+\.\d+\<close> matched against the whole string. The decimal digits are the ten
  digits \<^verbatim>\<open>0\<close> to \<^verbatim>\<open>9\<close>, the only decimal digits among the characters of the model.
\<close>

definition decimal_digits :: "string \<Rightarrow> bool" where
  "decimal_digits ds = (ds \<noteq> [] \<and> list_all (\<lambda>c. c \<in> set ''0123456789'') ds)"

definition matches_version_pattern :: "string \<Rightarrow> bool" where
  "matches_version_pattern s =
     (\<exists>a b c. decimal_digits a \<and> decimal_digits b \<and> decimal_digits c \<and>
        s = ''v'' @ a @ ''.'' @ b @ ''.'' @ c)"

text \<open>A version of non-negative integers, as the specification has them.\<close>

definition non_negative :: "version \<Rightarrow> bool" where
  "non_negative v = (0 \<le> fst v \<and> 0 \<le> fst (snd v) \<and> 0 \<le> snd (snd v))"

section \<open>What a regular expression matches\<close>

text \<open>
  The meaning of a regular expression, independent of the order in which the matcher
  tries the alternatives: \<open>matches r u g\<close> holds when \<open>r\<close> matches exactly the string \<open>u\<close>
  and captures the groups \<open>g\<close>. An iteration of a repetition that is followed by another
  one consumes at least one character.
\<close>

inductive matches :: "regex \<Rightarrow> string \<Rightarrow> string list \<Rightarrow> bool" where
  m_Lit: "matches (Lit c) [c] []"
| m_Range: "in_range lo hi x \<Longrightarrow> matches (Range lo hi) [x] []"
| m_Cat: "matches r1 u g1 \<Longrightarrow> matches r2 v g2 \<Longrightarrow> matches (Cat r1 r2) (u @ v) (g1 @ g2)"
| m_Group: "matches r u g \<Longrightarrow> matches (Group r) u (u # g)"
| m_Plus1: "matches r u g \<Longrightarrow> matches (Plus r) u g"
| m_PlusS: "matches r u g1 \<Longrightarrow> u \<noteq> [] \<Longrightarrow> matches (Plus r) v g \<Longrightarrow> matches (Plus r) (u @ v) g"

inductive_cases matches_LitE: "matches (Lit c) u g"
inductive_cases matches_RangeE: "matches (Range lo hi) u g"
inductive_cases matches_CatE: "matches (Cat r1 r2) u g"
inductive_cases matches_GroupE: "matches (Group r) u g"

section \<open>The matcher finds exactly the matches\<close>

declare rmatch.simps [simp del]

lemma rmatch_Lit_iff:
  "(g, rest) \<in> set (rmatch (Lit c) s) \<longleftrightarrow> g = [] \<and> s = c # rest"
  by (cases s) (auto simp: rmatch.simps)

lemma rmatch_Range_iff:
  "(g, rest) \<in> set (rmatch (Range lo hi) s) \<longleftrightarrow> g = [] \<and> (\<exists>x. in_range lo hi x \<and> s = x # rest)"
  by (cases s) (auto simp: rmatch.simps)

lemma rmatch_Cat_iff:
  "(g, rest) \<in> set (rmatch (Cat r1 r2) s) \<longleftrightarrow>
     (\<exists>g1 s1 g2. (g1, s1) \<in> set (rmatch r1 s) \<and> (g2, rest) \<in> set (rmatch r2 s1) \<and> g = g1 @ g2)"
  by (force simp: rmatch.simps)

lemma rmatch_Group_iff:
  "(g, rest) \<in> set (rmatch (Group r) s) \<longleftrightarrow>
     (\<exists>g0. (g0, rest) \<in> set (rmatch r s) \<and> g = take (length s - length rest) s # g0)"
  by (force simp: rmatch.simps)

lemma rmatch_Plus_iff:
  "(g, rest) \<in> set (rmatch (Plus r) s) \<longleftrightarrow>
     (\<exists>g1 s1. (g1, s1) \<in> set (rmatch r s) \<and>
        ((length s1 < length s \<and> (g, rest) \<in> set (rmatch (Plus r) s1)) \<or> (g, rest) = (g1, s1)))"
  by (subst rmatch.simps) (force split: if_splits)

lemma rmatch_sound:
  "(g, rest) \<in> set (rmatch r s) \<Longrightarrow> \<exists>u. s = u @ rest \<and> matches r u g"
proof (induction r s arbitrary: g rest rule: rmatch.induct)
  case (1 c s)
  then show ?case by (auto simp: rmatch_Lit_iff intro: m_Lit)
next
  case (2 lo hi s)
  then show ?case by (auto simp: rmatch_Range_iff intro: m_Range)
next
  case (3 r1 r2 s)
  from "3.prems" obtain g1 s1 g2 where
    a: "(g1, s1) \<in> set (rmatch r1 s)" and b: "(g2, rest) \<in> set (rmatch r2 s1)"
    and g: "g = g1 @ g2"
    unfolding rmatch_Cat_iff by blast
  from "3.IH"(1) [OF a] obtain u where u: "s = u @ s1" "matches r1 u g1" by blast
  from "3.IH"(2) [OF a refl b] obtain v where v: "s1 = v @ rest" "matches r2 v g2" by blast
  have "s = (u @ v) @ rest" using u(1) v(1) by simp
  moreover have "matches (Cat r1 r2) (u @ v) g" unfolding g using u(2) v(2) by (rule m_Cat)
  ultimately show ?case by blast
next
  case (4 r s)
  from "4.prems" obtain g0 where a: "(g0, rest) \<in> set (rmatch r s)"
    and g: "g = take (length s - length rest) s # g0"
    unfolding rmatch_Group_iff by blast
  from "4.IH" [OF a] obtain u where u: "s = u @ rest" "matches r u g0" by blast
  from u(1) have "take (length s - length rest) s = u" by simp
  with g have "g = u # g0" by simp
  with u show ?case by (auto intro: m_Group)
next
  case (5 r s)
  from "5.prems" obtain g1 s1 where a: "(g1, s1) \<in> set (rmatch r s)"
    and b: "(length s1 < length s \<and> (g, rest) \<in> set (rmatch (Plus r) s1)) \<or> (g, rest) = (g1, s1)"
    by (subst (asm) rmatch_Plus_iff) blast
  from "5.IH"(1) [OF a] obtain u where u: "s = u @ s1" "matches r u g1" by blast
  from b show ?case
  proof
    assume c: "length s1 < length s \<and> (g, rest) \<in> set (rmatch (Plus r) s1)"
    then have c1: "length s1 < length s" and c2: "(g, rest) \<in> set (rmatch (Plus r) s1)"
      by blast+
    from "5.IH"(2) [OF a refl c1 c2] obtain v where v: "s1 = v @ rest" "matches (Plus r) v g"
      by blast
    from c1 u(1) have "u \<noteq> []" by auto
    with u(2) v(2) have "matches (Plus r) (u @ v) g" by (blast intro: m_PlusS)
    moreover have "s = (u @ v) @ rest" using u(1) v(1) by simp
    ultimately show ?thesis by blast
  next
    assume "(g, rest) = (g1, s1)"
    with u show ?thesis by (auto intro: m_Plus1)
  qed
qed

lemma rmatch_complete:
  "matches r u g \<Longrightarrow> (g, rest) \<in> set (rmatch r (u @ rest))"
proof (induction arbitrary: rest rule: matches.induct)
  case (m_Lit c)
  show ?case by (simp add: rmatch_Lit_iff)
next
  case (m_Range lo hi x)
  then show ?case by (simp add: rmatch_Range_iff)
next
  case (m_Cat r1 u g1 r2 v g2)
  have "(g1, v @ rest) \<in> set (rmatch r1 (u @ v @ rest))" by (rule m_Cat.IH(1))
  moreover have "(g2, rest) \<in> set (rmatch r2 (v @ rest))" by (rule m_Cat.IH(2))
  ultimately show ?case unfolding rmatch_Cat_iff by auto
next
  case (m_Group r u g)
  have "(g, rest) \<in> set (rmatch r (u @ rest))" by (rule m_Group.IH)
  then show ?case unfolding rmatch_Group_iff by simp
next
  case (m_Plus1 r u g)
  have "(g, rest) \<in> set (rmatch r (u @ rest))" by (rule m_Plus1.IH)
  then show ?case by (subst rmatch_Plus_iff) blast
next
  case (m_PlusS r u g1 v g)
  have a: "(g1, v @ rest) \<in> set (rmatch r ((u @ v) @ rest))" using m_PlusS.IH(1) by simp
  have b: "(g, rest) \<in> set (rmatch (Plus r) (v @ rest))" by (rule m_PlusS.IH(2))
  from \<open>u \<noteq> []\<close> have c: "length (v @ rest) < length ((u @ v) @ rest)" by (cases u) auto
  from a b c show ?case by (subst rmatch_Plus_iff) blast
qed

lemma fullmatch_sound:
  assumes "fullmatch r s = Some m"
  shows "fst m = s \<and> matches r s (snd m)"
proof -
  from assms obtain g rest where f: "find (\<lambda>(g, rest). rest = []) (rmatch r s) = Some (g, rest)"
    and m: "m = (s, g)"
    by (auto simp: fullmatch_def split: option.splits)
  from f have "(g, rest) \<in> set (rmatch r s)" "rest = []"
    by (auto simp: find_Some_iff in_set_conv_nth)
  with rmatch_sound [of g rest r s] m show ?thesis by auto
qed

lemma fullmatch_complete:
  assumes "matches r s g"
  shows "\<exists>g'. fullmatch r s = Some (s, g')"
proof -
  from rmatch_complete [OF assms, of "[]"] have "(g, []) \<in> set (rmatch r s)" by simp
  then have "find (\<lambda>(g, rest). rest = []) (rmatch r s) \<noteq> None"
    by (auto simp: find_None_iff)
  then show ?thesis by (auto simp: fullmatch_def split: option.splits)
qed

section \<open>The matches of the version pattern\<close>

lemma is_digit_iff: "is_digit c \<longleftrightarrow> c \<in> set ''0123456789''"
proof
  assume "c \<in> set ''0123456789''"
  then show "is_digit c" by (auto simp: is_digit_def code_point_def)
next
  assume a: "is_digit c"
  define n where "n = (of_char c :: nat)"
  have eq: "c = d \<longleftrightarrow> n = of_char d" for d
    unfolding n_def by (simp only: of_char_eq_iff)
  from a have "48 \<le> n" "n \<le> 57" by (simp_all add: is_digit_def code_point_def n_def)
  then have "n = 48 \<or> n = 49 \<or> n = 50 \<or> n = 51 \<or> n = 52 \<or> n = 53 \<or> n = 54 \<or>
      n = 55 \<or> n = 56 \<or> n = 57"
    by arith
  then show "c \<in> set ''0123456789''" by (simp add: eq)
qed

lemma in_range_digit: "in_range CHR ''0'' CHR ''9'' c = is_digit c"
  by (simp add: in_range_def is_digit_def code_point_def)

lemma decimal_digits_iff: "decimal_digits ds \<longleftrightarrow> ds \<noteq> [] \<and> list_all is_digit ds"
  by (simp add: decimal_digits_def is_digit_iff [abs_def])

lemma matches_digits_sound:
  "matches r u g \<Longrightarrow> r = Plus (Range CHR ''0'' CHR ''9'') \<Longrightarrow> g = [] \<and> decimal_digits u"
proof (induction rule: matches.induct)
  case (m_Plus1 r u g)
  then have "matches (Range CHR ''0'' CHR ''9'') u g" by simp
  then show ?case
    by (auto elim!: matches_RangeE simp: decimal_digits_iff in_range_digit)
next
  case (m_PlusS r u g1 v g)
  then have "matches (Range CHR ''0'' CHR ''9'') u g1" by simp
  then have "list_all is_digit u" by (auto elim!: matches_RangeE simp: in_range_digit)
  with m_PlusS show ?case by (auto simp: decimal_digits_iff)
qed simp_all

lemma matches_digits_complete:
  "u \<noteq> [] \<Longrightarrow> list_all is_digit u \<Longrightarrow> matches (Plus (Range CHR ''0'' CHR ''9'')) u []"
proof (induction u)
  case Nil
  then show ?case by simp
next
  case (Cons x u)
  then have x: "matches (Range CHR ''0'' CHR ''9'') [x] []"
    by (auto intro: m_Range simp: in_range_digit)
  show ?case
  proof (cases "u = []")
    case True
    with x show ?thesis by (auto intro: m_Plus1)
  next
    case False
    with Cons have "matches (Plus (Range CHR ''0'' CHR ''9'')) u []" by simp
    with x have "matches (Plus (Range CHR ''0'' CHR ''9'')) ([x] @ u) []"
      by (intro m_PlusS) auto
    then show ?thesis by simp
  qed
qed

lemma matches_digits_iff:
  "matches (Plus (Range CHR ''0'' CHR ''9'')) u g \<longleftrightarrow> g = [] \<and> decimal_digits u"
  using matches_digits_sound [of _ u g] matches_digits_complete [of u]
  by (auto simp: decimal_digits_iff)

lemma matches_digit_group_iff:
  "matches (Group (Plus (Range CHR ''0'' CHR ''9''))) u g \<longleftrightarrow> g = [u] \<and> decimal_digits u"
  by (auto elim!: matches_GroupE simp: matches_digits_iff intro: m_Group)

lemma matches_Lit_iff: "matches (Lit c) u g \<longleftrightarrow> u = [c] \<and> g = []"
  by (auto elim!: matches_LitE intro: m_Lit)

lemma matches_Cat_iff:
  "matches (Cat r1 r2) u g \<longleftrightarrow>
     (\<exists>u1 g1 u2 g2. matches r1 u1 g1 \<and> matches r2 u2 g2 \<and> u = u1 @ u2 \<and> g = g1 @ g2)"
  by (auto elim!: matches_CatE intro: m_Cat)

lemma matches_version_tag_regex:
  "matches version_tag_regex s g \<longleftrightarrow>
     (\<exists>a b c. decimal_digits a \<and> decimal_digits b \<and> decimal_digits c \<and>
        s = ''v'' @ a @ ''.'' @ b @ ''.'' @ c \<and> g = [a, b, c])"
  unfolding version_tag_regex_def matches_Cat_iff matches_Lit_iff matches_digit_group_iff
  by auto

section \<open>Decimal conversion\<close>

lemma digit_char_is_digit: "d < 10 \<Longrightarrow> is_digit (digit_char d)"
  by (simp add: digit_char_def is_digit_def code_point_def)

lemma digit_value_digit_char: "d < 10 \<Longrightarrow> digit_value (digit_char d) = d"
  by (simp add: digit_char_def digit_value_def code_point_def)

lemma digits_of_nonempty: "digits_of n \<noteq> []"
  by (subst digits_of.simps) simp

lemma digits_of_all_digits: "list_all is_digit (digits_of n)"
proof (induction n rule: digits_of.induct)
  case (1 n)
  show ?case
  proof (cases "n < 10")
    case True
    then show ?thesis by (subst digits_of.simps) (simp add: digit_char_is_digit)
  next
    case False
    with 1 have "list_all is_digit (digits_of (n div 10))" by simp
    with False show ?thesis by (subst digits_of.simps) (simp add: digit_char_is_digit)
  qed
qed

lemma decimal_digits_digits_of: "decimal_digits (digits_of n)"
  by (simp add: decimal_digits_iff digits_of_nonempty digits_of_all_digits)

lemma digits_value_snoc: "digits_value (ds @ [c]) = 10 * digits_value ds + digit_value c"
  by (simp add: digits_value_def)

lemma digits_value_digits_of: "digits_value (digits_of n) = n"
proof (induction n rule: digits_of.induct)
  case (1 n)
  show ?case
  proof (cases "n < 10")
    case True
    then show ?thesis
      by (subst digits_of.simps) (simp add: digits_value_def digit_value_digit_char)
  next
    case False
    with 1 have "digits_value (digits_of (n div 10)) = n div 10" by simp
    with False show ?thesis
      by (subst digits_of.simps) (simp add: digits_value_snoc digit_value_digit_char)
  qed
qed

lemma digit_not_space: "is_digit c \<Longrightarrow> \<not> is_space c"
  by (auto simp: is_digit_def is_space_def Let_def)

lemma digit_not_linebreak: "is_digit c \<Longrightarrow> \<not> is_linebreak c"
  by (auto simp: is_digit_def is_linebreak_def Let_def)

lemma digit_not_punct:
  "is_digit c \<Longrightarrow> c \<noteq> CHR ''-'' \<and> c \<noteq> CHR ''+'' \<and> c \<noteq> CHR ''_'' \<and> c \<noteq> CHR ''.''"
  by (auto simp: is_digit_def code_point_def)

lemma strip_id:
  assumes "s \<noteq> []" "\<not> is_space (hd s)" "\<not> is_space (last s)"
  shows "strip s = s"
proof -
  from assms have a: "dropWhile is_space s = s" by (cases s) auto
  from assms have "rev s \<noteq> []" "\<not> is_space (hd (rev s))" by (simp_all add: hd_rev)
  then have "dropWhile is_space (rev s) = rev s" by (cases "rev s") auto
  with a show ?thesis by (simp add: strip_def)
qed

lemma strip_digits: "decimal_digits ds \<Longrightarrow> strip ds = ds"
proof -
  assume a: "decimal_digits ds"
  then have ne: "ds \<noteq> []" and all: "list_all is_digit ds" by (simp_all add: decimal_digits_iff)
  from ne all have "is_digit (hd ds)" "is_digit (last ds)"
    by (auto simp: list_all_iff)
  with ne show ?thesis by (intro strip_id) (auto dest: digit_not_space)
qed

lemma int_literal_digits: "ds \<noteq> [] \<Longrightarrow> list_all is_digit ds \<Longrightarrow> int_literal ds"
  by (induction ds rule: int_literal.induct) (auto dest: digit_not_punct)

lemma filter_digits: "list_all is_digit ds \<Longrightarrow> filter (\<lambda>c. c \<noteq> CHR ''_'') ds = ds"
  by (induction ds) (auto dest: digit_not_punct)

lemma py_int_digits:
  assumes "decimal_digits ds"
  shows "py_int ds =
           (if max_str_digits < length ds then Inl ValueError else Inr (int (digits_value ds)))"
proof -
  from assms have ne: "ds \<noteq> []" and all: "list_all is_digit ds"
    by (simp_all add: decimal_digits_iff)
  from ne obtain c r where ds: "ds = c # r" by (cases ds) auto
  with all have "is_digit c" by simp
  then have c: "c \<noteq> CHR ''-''" "c \<noteq> CHR ''+''" by (auto dest: digit_not_punct)
  have s: "strip ds = ds" using assms by (rule strip_digits)
  have l: "int_literal ds" using ne all by (rule int_literal_digits)
  have f: "filter (\<lambda>c. c \<noteq> CHR ''_'') ds = ds" using all by (rule filter_digits)
  have "py_int (c # r) =
          (if max_str_digits < length (c # r) then Inl ValueError
           else Inr (int (digits_value (c # r))))"
    using s l f c unfolding ds py_int_def by (simp add: Let_def)
  then show ?thesis by (simp only: ds)
qed

text \<open>The number of digits of a natural number, against the powers of ten.\<close>

lemma length_digits_of_le: "0 < k \<Longrightarrow> n < 10 ^ k \<Longrightarrow> length (digits_of n) \<le> k"
proof (induction n arbitrary: k rule: digits_of.induct)
  case (1 n)
  show ?case
  proof (cases "n < 10")
    case True
    with "1.prems" show ?thesis by (subst digits_of.simps) simp
  next
    case False
    from "1.prems" obtain j where k: "k = Suc j" by (cases k) auto
    with False "1.prems" have j: "0 < j" by (cases j) auto
    from "1.prems" k have "n div 10 < 10 ^ j" by (simp add: less_mult_imp_div_less mult.commute)
    with "1.IH" [OF False j] have "length (digits_of (n div 10)) \<le> j" by simp
    with False k show ?thesis by (subst digits_of.simps) simp
  qed
qed

lemma length_digits_of_gt: "10 ^ k \<le> n \<Longrightarrow> k < length (digits_of n)"
proof (induction n arbitrary: k rule: digits_of.induct)
  case (1 n)
  show ?case
  proof (cases "n < 10")
    case True
    have "k = 0"
    proof (cases k)
      case 0
      then show ?thesis .
    next
      case (Suc j)
      have "(1::nat) \<le> 10 ^ j" by simp
      with Suc "1.prems" True show ?thesis by simp
    qed
    with True show ?thesis by (subst digits_of.simps) simp
  next
    case False
    show ?thesis
    proof (cases k)
      case 0
      then show ?thesis by (simp add: digits_of_nonempty)
    next
      case (Suc j)
      with "1.prems" have "10 ^ j \<le> n div 10" by (simp add: less_eq_div_iff_mult_less_eq mult.commute)
      with "1.IH" [OF False] have "j < length (digits_of (n div 10))" by simp
      with False Suc show ?thesis by (subst digits_of.simps) simp
    qed
  qed
qed

lemma py_str_in_range:
  assumes "0 \<le> i" "i < 10 ^ max_str_digits"
  shows "py_str i = Inr (digits_of (nat i))"
proof -
  from assms have "nat i < 10 ^ max_str_digits" by (simp add: nat_less_iff)
  moreover have "0 < max_str_digits" by (simp add: max_str_digits_def)
  ultimately have "length (digits_of (nat i)) \<le> max_str_digits"
    by (rule length_digits_of_le [rotated])
  with assms(1) show ?thesis by (simp add: py_str_def Let_def)
qed

lemma py_str_too_long:
  assumes "10 ^ max_str_digits \<le> i"
  shows "py_str i = Inl ValueError"
proof -
  have "(0::int) \<le> 10 ^ max_str_digits" by simp
  from this assms have "0 \<le> i" by (rule order_trans)
  with assms have "10 ^ max_str_digits \<le> nat i" by (simp add: le_nat_iff)
  then have "max_str_digits < length (digits_of (nat i))" by (rule length_digits_of_gt)
  with \<open>0 \<le> i\<close> show ?thesis by (simp add: py_str_def Let_def)
qed

lemma max_str_digits_pos: "0 < max_str_digits"
  by (simp add: max_str_digits_def)

section \<open>Parsing and formatting versions\<close>

lemma decimal_digits_no_dot: "decimal_digits a \<Longrightarrow> CHR ''.'' \<notin> set a"
  by (auto simp: decimal_digits_iff list_all_iff dest: digit_not_punct)

lemma split_at_first_unique:
  "x \<notin> set xs \<Longrightarrow> x \<notin> set xs' \<Longrightarrow> xs @ x # ys = xs' @ x # ys' \<Longrightarrow> xs = xs' \<and> ys = ys'"
proof (induction xs arbitrary: xs')
  case Nil
  then show ?case by (cases xs') auto
next
  case (Cons a xs)
  then show ?case by (cases xs') auto
qed

lemma version_decomposition_unique:
  assumes "decimal_digits a" "decimal_digits b" "decimal_digits a'" "decimal_digits b'"
    and "''v'' @ a @ ''.'' @ b @ ''.'' @ c = ''v'' @ a' @ ''.'' @ b' @ ''.'' @ c'"
  shows "a = a' \<and> b = b' \<and> c = c'"
proof -
  from assms(5) have e: "a @ CHR ''.'' # (b @ CHR ''.'' # c) = a' @ CHR ''.'' # (b' @ CHR ''.'' # c')"
    by simp
  have da: "CHR ''.'' \<notin> set a" "CHR ''.'' \<notin> set a'"
    using assms(1,3) by (auto dest: decimal_digits_no_dot)
  have db: "CHR ''.'' \<notin> set b" "CHR ''.'' \<notin> set b'"
    using assms(2,4) by (auto dest: decimal_digits_no_dot)
  have "a = a' \<and> b @ CHR ''.'' # c = b' @ CHR ''.'' # c'"
    using da by (rule split_at_first_unique [OF _ _ e])
  then have a: "a = a'" and r: "b @ CHR ''.'' # c = b' @ CHR ''.'' # c'" by blast+
  have "b = b' \<and> c = c'" using db by (rule split_at_first_unique [OF _ _ r])
  with a show ?thesis by simp
qed

lemma fullmatch_version_tag_regex:
  assumes "decimal_digits a" "decimal_digits b" "decimal_digits c"
  shows "fullmatch version_tag_regex (''v'' @ a @ ''.'' @ b @ ''.'' @ c) =
           Some (''v'' @ a @ ''.'' @ b @ ''.'' @ c, [a, b, c])"
proof -
  let ?s = "''v'' @ a @ ''.'' @ b @ ''.'' @ c"
  from assms have "matches version_tag_regex ?s [a, b, c]"
    unfolding matches_version_tag_regex by blast
  then obtain g where f: "fullmatch version_tag_regex ?s = Some (?s, g)"
    using fullmatch_complete by blast
  from fullmatch_sound [OF f] have "matches version_tag_regex ?s g" by simp
  then obtain a' b' c' where d: "decimal_digits a'" "decimal_digits b'" "decimal_digits c'"
    and s: "?s = ''v'' @ a' @ ''.'' @ b' @ ''.'' @ c'" and g: "g = [a', b', c']"
    unfolding matches_version_tag_regex by blast
  from version_decomposition_unique [OF assms(1,2) d(1,2) s] g have "g = [a, b, c]" by simp
  with f show ?thesis by simp
qed

lemma fullmatch_version_tag_regex_None:
  assumes "\<not> matches_version_pattern s"
  shows "fullmatch version_tag_regex s = None"
proof (cases "fullmatch version_tag_regex s")
  case None
  then show ?thesis .
next
  case (Some m)
  from fullmatch_sound [OF Some] have "matches version_tag_regex s (snd m)" by simp
  then have "matches_version_pattern s"
    unfolding matches_version_tag_regex matches_version_pattern_def by blast
  with assms show ?thesis by simp
qed

lemma parse_version_digits:
  assumes "decimal_digits a" "decimal_digits b" "decimal_digits c"
  shows "parse_version (''v'' @ a @ ''.'' @ b @ ''.'' @ c) =
           (if max_str_digits < length a \<or> max_str_digits < length b \<or> max_str_digits < length c
            then Inl ValueError
            else Inr (Some (int (digits_value a), int (digits_value b), int (digits_value c))))"
  unfolding parse_version_def fullmatch_version_tag_regex [OF assms]
  by (simp add: group_def bind_err_def py_int_digits assms)

lemma parse_version_no_match:
  "\<not> matches_version_pattern s \<Longrightarrow> parse_version s = Inr None"
  by (simp add: parse_version_def fullmatch_version_tag_regex_None)

lemma parse_version_cases:
  "(\<not> matches_version_pattern s \<and> parse_version s = Inr None) \<or>
   (\<exists>a b c. decimal_digits a \<and> decimal_digits b \<and> decimal_digits c \<and>
      s = ''v'' @ a @ ''.'' @ b @ ''.'' @ c \<and>
      parse_version s =
        (if max_str_digits < length a \<or> max_str_digits < length b \<or> max_str_digits < length c
         then Inl ValueError
         else Inr (Some (int (digits_value a), int (digits_value b), int (digits_value c)))))"
proof (cases "matches_version_pattern s")
  case False
  then show ?thesis by (simp add: parse_version_no_match)
next
  case True
  then obtain a b c where "decimal_digits a" "decimal_digits b" "decimal_digits c"
    "s = ''v'' @ a @ ''.'' @ b @ ''.'' @ c"
    unfolding matches_version_pattern_def by blast
  then show ?thesis using parse_version_digits [of a b c] by blast
qed

lemma parse_version_iff:
  "parse_version s = Inr None \<longleftrightarrow> \<not> matches_version_pattern s"
proof
  assume a: "parse_version s = Inr None"
  show "\<not> matches_version_pattern s"
  proof
    assume "matches_version_pattern s"
    then obtain a b c where "decimal_digits a" "decimal_digits b" "decimal_digits c"
      "s = ''v'' @ a @ ''.'' @ b @ ''.'' @ c"
      unfolding matches_version_pattern_def by blast
    with parse_version_digits [of a b c] a show False by (simp split: if_splits)
  qed
next
  assume "\<not> matches_version_pattern s"
  then show "parse_version s = Inr None" by (rule parse_version_no_match)
qed

text \<open>
  The only exception \<open>parse_version\<close> raises is the \<^verbatim>\<open>ValueError\<close> of \<^verbatim>\<open>int\<close>, for a
  version tag with a component of more than \<open>max_str_digits\<close> digits.
\<close>

lemma parse_version_error:
  assumes "parse_version s = Inl e"
  shows "e = ValueError \<and> matches_version_pattern s"
proof -
  from assms have "parse_version s \<noteq> Inr None" by simp
  then have m: "matches_version_pattern s" by (simp add: parse_version_iff)
  then obtain a b c where "decimal_digits a" "decimal_digits b" "decimal_digits c"
    "s = ''v'' @ a @ ''.'' @ b @ ''.'' @ c"
    unfolding matches_version_pattern_def by blast
  with parse_version_digits [of a b c] assms have "e = ValueError"
    by (simp split: if_splits)
  with m show ?thesis by simp
qed

lemma py_str_cases: "py_str i = Inl ValueError \<or> (\<exists>s. py_str i = Inr s)"
  by (simp add: py_str_def Let_def)

lemma version_string_patch_too_long:
  assumes "10 ^ max_str_digits \<le> patch"
  shows "version_string (major, minor, patch) = Inl ValueError"
proof -
  have "py_str patch = Inl ValueError" using assms by (rule py_str_too_long)
  then show ?thesis
    using py_str_cases [of major] py_str_cases [of minor]
    by (auto simp: version_string_def bind_err_def)
qed

lemma version_string_in_range:
  assumes "0 \<le> major" "major < 10 ^ max_str_digits"
    and "0 \<le> minor" "minor < 10 ^ max_str_digits"
    and "0 \<le> patch" "patch < 10 ^ max_str_digits"
  shows "version_string (major, minor, patch) =
           Inr (''v'' @ digits_of (nat major) @ ''.'' @ digits_of (nat minor) @ ''.'' @
                digits_of (nat patch))"
  by (simp add: version_string_def bind_err_def py_str_in_range assms)

lemma parse_version_version_string:
  assumes "0 \<le> major" "major < 10 ^ max_str_digits"
    and "0 \<le> minor" "minor < 10 ^ max_str_digits"
    and "0 \<le> patch" "patch < 10 ^ max_str_digits"
  shows "\<exists>s. version_string (major, minor, patch) = Inr s \<and> matches_version_pattern s \<and>
           parse_version s = Inr (Some (major, minor, patch))"
proof -
  let ?a = "digits_of (nat major)" and ?b = "digits_of (nat minor)"
    and ?c = "digits_of (nat patch)"
  let ?s = "''v'' @ ?a @ ''.'' @ ?b @ ''.'' @ ?c"
  have d: "decimal_digits ?a" "decimal_digits ?b" "decimal_digits ?c"
    by (rule decimal_digits_digits_of)+
  have n: "nat major < 10 ^ max_str_digits" "nat minor < 10 ^ max_str_digits"
    "nat patch < 10 ^ max_str_digits"
    using assms by (simp_all add: nat_less_iff)
  have l: "length ?a \<le> max_str_digits" "length ?b \<le> max_str_digits"
    "length ?c \<le> max_str_digits"
    using n by (auto intro: length_digits_of_le max_str_digits_pos)
  have s: "version_string (major, minor, patch) = Inr ?s"
    using assms by (rule version_string_in_range)
  have m: "matches_version_pattern ?s"
    unfolding matches_version_pattern_def using d by blast
  have "parse_version ?s = Inr (Some (int (nat major), int (nat minor), int (nat patch)))"
    using parse_version_digits [OF d] l by (simp add: digits_value_digits_of not_less [symmetric])
  with assms(1,3,5) have "parse_version ?s = Inr (Some (major, minor, patch))" by simp
  with s m show ?thesis by blast
qed

text \<open>
  Two necessary conditions of the version pattern, which settle it on concrete strings.
\<close>

lemma dots_of_digits: "decimal_digits a \<Longrightarrow> filter (\<lambda>c. c = CHR ''.'') a = []"
  by (auto simp: filter_empty_conv dest: decimal_digits_no_dot)

lemma matches_version_pattern_shape:
  assumes "matches_version_pattern s"
  shows "take 1 s = ''v'' \<and> length (filter (\<lambda>c. c = CHR ''.'') s) = 2"
proof -
  from assms obtain a b c where "decimal_digits a" "decimal_digits b" "decimal_digits c"
    and s: "s = ''v'' @ a @ ''.'' @ b @ ''.'' @ c"
    unfolding matches_version_pattern_def by blast
  then show ?thesis by (simp add: dots_of_digits)
qed

text \<open>
  Claim C5. A string that does not match the version pattern as a whole parses to
  \<^verbatim>\<open>None\<close>: the match is anchored at both ends. The strings \<^verbatim>\<open>latest\<close>, \<^verbatim>\<open>v1.2\<close>,
  \<^verbatim>\<open>v1.2.3.4\<close> and \<^verbatim>\<open>V1.2.3\<close> are such strings.
\<close>

theorem parse_version_rejects:
  "\<not> matches_version_pattern s \<Longrightarrow> parse_version s = Inr None"
  by (rule parse_version_no_match)

theorem parse_version_rejects_witness:
  "\<not> matches_version_pattern ''latest'' \<and> parse_version ''latest'' = Inr None \<and>
   \<not> matches_version_pattern ''v1.2'' \<and> parse_version ''v1.2'' = Inr None \<and>
   \<not> matches_version_pattern ''v1.2.3.4'' \<and> parse_version ''v1.2.3.4'' = Inr None \<and>
   \<not> matches_version_pattern ''V1.2.3'' \<and> parse_version ''V1.2.3'' = Inr None"
proof -
  have a: "\<not> matches_version_pattern ''latest''"
    using matches_version_pattern_shape [of "''latest''"] by auto
  have b: "\<not> matches_version_pattern ''v1.2''"
    using matches_version_pattern_shape [of "''v1.2''"] by auto
  have c: "\<not> matches_version_pattern ''v1.2.3.4''"
    using matches_version_pattern_shape [of "''v1.2.3.4''"] by auto
  have d: "\<not> matches_version_pattern ''V1.2.3''"
    using matches_version_pattern_shape [of "''V1.2.3''"] by auto
  from a b c d parse_version_rejects [OF a] parse_version_rejects [OF b]
    parse_version_rejects [OF c] parse_version_rejects [OF d]
  show ?thesis by simp
qed

lemma below_limit:
  assumes "i < 1000"
  shows "i < (10::int) ^ 4300"
proof -
  have a: "(10::int) ^ 3 \<le> 10 ^ 4300" by (rule power_increasing) simp_all
  have "(10::int) ^ 3 = 1000" by simp
  with assms have "i < 10 ^ 3" by (simp only:)
  then show ?thesis using a by (rule less_le_trans)
qed

text \<open>
  Claim C2 says that parsing the formatted version returns the version, for every
  version of non-negative integers. A component of more than 4300 digits cannot be
  formatted: \<^verbatim>\<open>version_string\<close> raises \<^verbatim>\<open>ValueError\<close>, here for the version
  \<open>(1, 0, 10 ^ 4300)\<close>, whose patch has 4301 digits.
\<close>

theorem parse_version_round_trip_counterexample:
  "version_string (1, 0, 10 ^ 4300) = Inl ValueError \<and>
   bind_err (version_string (1, 0, 10 ^ 4300)) parse_version \<noteq> Inr (Some (1, 0, 10 ^ 4300))"
proof -
  have a: "version_string (1, 0, 10 ^ 4300) = Inl ValueError"
    by (rule version_string_patch_too_long [unfolded max_str_digits_def, OF order_refl])
  have "bind_err (version_string (1, 0, 10 ^ 4300)) parse_version = Inl ValueError"
    by (simp only: a bind_err_def sum.case)
  then have "bind_err (version_string (1, 0, 10 ^ 4300)) parse_version \<noteq>
      Inr (Some (1, 0, 10 ^ 4300))"
    by (simp only: sum.distinct simp_thms)
  with a show ?thesis by (rule conjI)
qed

text \<open>
  Claim C2, amended. Round trip: for every version \<open>(major, minor, patch)\<close> of
  non-negative integers of at most 4300 digits each (that is, below \<open>10 ^ 4300\<close>),
  \<^verbatim>\<open>version_string\<close> returns a string and parsing it returns the version.
\<close>

theorem parse_version_round_trip:
  "0 \<le> major \<Longrightarrow> major < 10 ^ 4300 \<Longrightarrow> 0 \<le> minor \<Longrightarrow> minor < 10 ^ 4300 \<Longrightarrow>
   0 \<le> patch \<Longrightarrow> patch < 10 ^ 4300 \<Longrightarrow>
   \<exists>s. version_string (major, minor, patch) = Inr s \<and>
       parse_version s = Inr (Some (major, minor, patch))"
  using parse_version_version_string [unfolded max_str_digits_def, of major minor patch]
  by blast

theorem parse_version_round_trip_witness:
  "version_string (12, 0, 345) = Inr ''v12.0.345'' \<and>
   parse_version ''v12.0.345'' = Inr (Some (12, 0, 345))"
proof -
  have b: "(12::int) < 10 ^ 4300" "(0::int) < 10 ^ 4300" "(345::int) < 10 ^ 4300"
    by (rule below_limit, simp)+
  have p: "(0::int) \<le> 12" "(0::int) \<le> 0" "(0::int) \<le> 345" by simp_all
  from parse_version_round_trip [OF p(1) b(1) p(2) b(2) p(3) b(3)]
  obtain s where s: "version_string (12, 0, 345) = Inr s"
    and r: "parse_version s = Inr (Some (12, 0, 345))"
    by blast
  have "version_string (12, 0, 345) = Inr ''v12.0.345''" by code_simp
  with s r show ?thesis by simp
qed

text \<open>
  Claim C10. \<open>parse_version\<close> accepts components with leading zeros: there is a string,
  \<^verbatim>\<open>v01.2.3\<close>, that parses to \<open>(1, 2, 3)\<close> and differs from the formatted version. Formatting
  after parsing gives the canonical form, not always the tag that was parsed.
\<close>

theorem parse_version_leading_zero:
  "\<exists>s. parse_version s = Inr (Some (1, 2, 3)) \<and>
       (\<exists>t. version_string (1, 2, 3) = Inr t \<and> t \<noteq> s)"
proof (intro exI conjI)
  show "parse_version ''v01.2.3'' = Inr (Some (1, 2, 3))" by code_simp
  show "version_string (1, 2, 3) = Inr ''v1.2.3''" by code_simp
  show "''v1.2.3'' \<noteq> ''v01.2.3''" by simp
qed

section \<open>The next version\<close>

lemma bugfix_revs_set:
  "set (map (\<lambda>v. snd (snd v)) (filter (\<lambda>v. fst v = M \<and> fst (snd v) = m) vs)) =
     {q. (M, m, q) \<in> set vs}"
  by force

lemma py_max_Max:
  assumes "xs \<noteq> []"
  shows "py_max xs = Inr (Max (set xs))"
proof (cases xs)
  case Nil
  with assms show ?thesis by simp
next
  case (Cons x rest)
  have "Max (set (x # rest)) = fold max rest x" by (rule Max.set_eq_fold)
  with Cons show ?thesis by (simp add: py_max_def del: set_simps)
qed

lemma next_version_eq:
  "next_version (M, m, p) vs =
     Inr (M, m, if \<exists>q. (M, m, q) \<in> set vs then Max {q. (M, m, q) \<in> set vs} + 1 else 0)"
proof -
  let ?revs = "map (\<lambda>v. snd (snd v)) (filter (\<lambda>v. fst v = M \<and> fst (snd v) = m) vs)"
  have s: "set ?revs = {q. (M, m, q) \<in> set vs}" by (rule bugfix_revs_set)
  show ?thesis
  proof (cases "?revs = []")
    case True
    with s have "\<not> (\<exists>q. (M, m, q) \<in> set vs)" by auto
    with True show ?thesis by (simp add: next_version_def)
  next
    case False
    with s have e: "\<exists>q. (M, m, q) \<in> set vs" by (metis (mono_tags, lifting) empty_Collect_eq set_empty)
    from False have "py_max ?revs = Inr (Max (set ?revs))" by (rule py_max_Max)
    then have "py_max ?revs = Inr (Max {q. (M, m, q) \<in> set vs})" by (simp only: s)
    with False e show ?thesis by (simp add: next_version_def bind_err_def Let_def)
  qed
qed

text \<open>
  Claim C1. For every current version \<open>(M, m, p)\<close> and every list of versions \<open>vs\<close>, the
  next version is \<open>(M, m, 0)\<close> when no element of \<open>vs\<close> has major \<open>M\<close> and minor \<open>m\<close>, and
  otherwise \<open>(M, m, q + 1)\<close> with \<open>q\<close> the greatest patch among the elements \<open>(M, m, _)\<close> of
  \<open>vs\<close>. No exception is raised, and the major and minor of the result are those of the
  current version: the patch \<open>p\<close> of the current version plays no part.
\<close>

theorem next_version_spec:
  "next_version (M, m, p) vs =
     Inr (M, m, if \<exists>q. (M, m, q) \<in> set vs then Max {q. (M, m, q) \<in> set vs} + 1 else 0)"
  by (rule next_version_eq)

text \<open>
  Claim C7. Duplicate tags do not matter: two lists of versions with the same elements
  give the same next version. The tags \<^verbatim>\<open>v1.0.5\<close>, \<^verbatim>\<open>v1.0.5\<close>, \<^verbatim>\<open>v1.0.2\<close> with current version
  \<open>(1, 0, 0)\<close> give \<open>(1, 0, 6)\<close>, as the tags \<^verbatim>\<open>v1.0.5\<close>, \<^verbatim>\<open>v1.0.2\<close> do.
\<close>

theorem next_version_same_tags:
  "set vs1 = set vs2 \<Longrightarrow> next_version c vs1 = next_version c vs2"
  by (cases c) (simp add: next_version_eq)

theorem next_version_same_tags_witness:
  "set [(1, 0, 5), (1, 0, 5), (1, 0, 2)] = set [(1, 0, 5), (1, 0, 2 :: int)] \<and>
   next_version (1, 0, 0) [(1, 0, 5), (1, 0, 5), (1, 0, 2)] =
     next_version (1, 0, 0) [(1, 0, 5), (1, 0, 2)] \<and>
   next_version (1, 0, 0) [(1, 0, 5), (1, 0, 5), (1, 0, 2)] = Inr (1, 0, 6)"
proof -
  have s: "set [(1, 0, 5), (1, 0, 5), (1, 0, 2)] = set [(1 :: int, 0 :: int, 5 :: int), (1, 0, 2)]"
    by simp
  have e: "next_version (1, 0, 0) [(1, 0, 5), (1, 0, 5), (1, 0, 2)] = Inr (1, 0, 6)"
    by code_simp
  from s e next_version_same_tags [OF s, of "(1, 0, 0)"] show ?thesis by simp
qed

text \<open>
  Claim C9. The next version is fresh: for every current version \<open>c\<close> and every list of
  versions \<open>vs\<close>, \<open>next_version c vs\<close> returns a version that is not an element of \<open>vs\<close>.
\<close>

theorem next_version_fresh:
  "\<exists>v. next_version c vs = Inr v \<and> v \<notin> set vs"
proof -
  obtain M m p where c: "c = (M, m, p)" by (cases c) auto
  let ?Q = "{q. (M, m, q) \<in> set vs}"
  have fin: "finite ?Q"
  proof -
    have "?Q \<subseteq> (\<lambda>v. snd (snd v)) ` set vs" by force
    then show ?thesis by (rule finite_subset) simp
  qed
  show ?thesis
  proof (cases "\<exists>q. (M, m, q) \<in> set vs")
    case False
    then have "next_version c vs = Inr (M, m, 0)" "(M, m, 0) \<notin> set vs"
      by (auto simp: c next_version_eq)
    then show ?thesis by blast
  next
    case True
    then have n: "next_version c vs = Inr (M, m, Max ?Q + 1)" by (simp add: c next_version_eq)
    have "(M, m, Max ?Q + 1) \<notin> set vs"
    proof
      assume "(M, m, Max ?Q + 1) \<in> set vs"
      then have "Max ?Q + 1 \<in> ?Q" by simp
      with fin have "Max ?Q + 1 \<le> Max ?Q" by (rule Max_ge)
      then show False by simp
    qed
    with n show ?thesis by blast
  qed
qed

section \<open>The marker file\<close>

text \<open>
  Claim C6. If no marker file is present, \<open>get_current_version\<close> returns the default
  version \<open>(1, 0, 0)\<close>.
\<close>

theorem get_current_version_no_file:
  "get_current_version None = Inr (Some (1, 0, 0))"
  by (simp add: get_current_version_def)

text \<open>
  Claim C3 says that \<open>get_current_version\<close> returns a value for every state of the marker
  file, the empty file included. An empty marker file has no first line:
  \<^verbatim>\<open>file.read().splitlines()\<close> is the empty list, and subscripting it with \<open>0\<close> raises
  \<^verbatim>\<open>IndexError\<close>.
\<close>

theorem get_current_version_empty_file:
  "get_current_version (Some '''') = Inl IndexError"
  by (simp add: get_current_version_def splitlines_def index_def bind_err_def)

text \<open>
  The empty marker file is the only state in which \<open>get_current_version\<close> raises
  \<^verbatim>\<open>IndexError\<close>: a file that is not empty has a first line. The only other exception
  is the \<^verbatim>\<open>ValueError\<close> of \<^verbatim>\<open>int\<close>, when the first line is a version with a component of
  more than \<open>max_str_digits\<close> digits.
\<close>

lemma splitlines_from_nonempty: "cur \<noteq> [] \<or> s \<noteq> [] \<Longrightarrow> splitlines_from cur s \<noteq> []"
  by (induction cur s rule: splitlines_from.induct) auto

lemma splitlines_nonempty: "content \<noteq> [] \<Longrightarrow> splitlines content \<noteq> []"
  by (simp add: splitlines_def splitlines_from_nonempty)

lemma get_current_version_content:
  assumes "splitlines content = line # rest"
  shows "get_current_version (Some content) = parse_version (strip line)"
  using assms by (simp add: get_current_version_def index_def bind_err_def)

lemma get_current_version_IndexError:
  "get_current_version file = Inl IndexError \<longleftrightarrow> file = Some ''''"
proof (cases "file")
  case None
  then show ?thesis by (simp add: get_current_version_def)
next
  case (Some content)
  show ?thesis
  proof (cases "content = []")
    case True
    with Some show ?thesis
      by (simp add: get_current_version_def splitlines_def index_def bind_err_def)
  next
    case False
    then obtain line rest where l: "splitlines content = line # rest"
      using splitlines_nonempty [of content] by (cases "splitlines content") auto
    have "parse_version (strip line) \<noteq> Inl IndexError"
      using parse_version_error [of "strip line" IndexError] by auto
    with Some False show ?thesis by (simp add: get_current_version_content [OF l])
  qed
qed

lemma get_current_version_error:
  assumes "get_current_version file = Inl e"
  shows "(e = IndexError \<and> file = Some '''') \<or>
         (e = ValueError \<and> (\<exists>content line rest. file = Some content \<and>
            splitlines content = line # rest \<and> matches_version_pattern (strip line)))"
proof (cases "file")
  case None
  with assms show ?thesis by (simp add: get_current_version_def)
next
  case (Some content)
  show ?thesis
  proof (cases "content = []")
    case True
    with Some assms show ?thesis
      by (simp add: get_current_version_def splitlines_def index_def bind_err_def)
  next
    case False
    then obtain line rest where l: "splitlines content = line # rest"
      using splitlines_nonempty [of content] by (cases "splitlines content") auto
    with assms Some have "parse_version (strip line) = Inl e"
      by (simp add: get_current_version_content [OF l])
    then have "e = ValueError \<and> matches_version_pattern (strip line)"
      by (rule parse_version_error)
    with Some l show ?thesis by blast
  qed
qed

text \<open>
  A marker file that holds a single line break has an empty first line, which does not
  parse: \<open>get_current_version\<close> returns \<^verbatim>\<open>None\<close> there.
\<close>

lemma get_current_version_blank_line:
  "get_current_version (Some ''\<newline>'') = Inr None"
  by code_simp

text \<open>
  Claim C4. When the first line of the marker file, stripped of surrounding white space,
  does not match the version pattern, \<open>get_current_version\<close> returns \<^verbatim>\<open>None\<close>: neither
  the default version nor an exception.
\<close>

theorem get_current_version_malformed:
  "splitlines content = line # rest \<Longrightarrow> \<not> matches_version_pattern (strip line) \<Longrightarrow>
   get_current_version (Some content) = Inr None"
  by (simp add: get_current_version_def index_def bind_err_def parse_version_no_match)

theorem get_current_version_malformed_witness:
  "splitlines '' 1.2.3  '' = ['' 1.2.3  ''] \<and> strip '' 1.2.3  '' = ''1.2.3'' \<and>
   \<not> matches_version_pattern ''1.2.3'' \<and>
   get_current_version (Some '' 1.2.3  '') = Inr None"
proof -
  have a: "splitlines '' 1.2.3  '' = ['' 1.2.3  '']" by code_simp
  have b: "strip '' 1.2.3  '' = ''1.2.3''" by code_simp
  have c: "\<not> matches_version_pattern (strip '' 1.2.3  '')"
    unfolding b using matches_version_pattern_shape [of "''1.2.3''"] by auto
  from a b c get_current_version_malformed [OF a c] show ?thesis by simp
qed

lemma write_version_file_in_range:
  assumes "0 \<le> major" "major < 10 ^ max_str_digits"
    and "0 \<le> minor" "minor < 10 ^ max_str_digits"
    and "0 \<le> patch" "patch < 10 ^ max_str_digits"
  shows "\<exists>s. write_version_file (major, minor, patch) w = (w\<lparr>version_file := Some s\<rparr>, Inr ()) \<and>
           matches_version_pattern s \<and> parse_version s = Inr (Some (major, minor, patch))"
proof -
  from parse_version_version_string [OF assms] obtain s where
    s: "version_string (major, minor, patch) = Inr s" and m: "matches_version_pattern s"
    and p: "parse_version s = Inr (Some (major, minor, patch))"
    by blast
  from s have "write_version_file (major, minor, patch) w = (w\<lparr>version_file := Some s\<rparr>, Inr ())"
    by (simp add: write_version_file_def)
  with m p show ?thesis by blast
qed

lemma write_version_file_too_long:
  assumes "10 ^ max_str_digits \<le> patch"
  shows "write_version_file (major, minor, patch) w = (w\<lparr>version_file := Some ''''\<rparr>, Inl ValueError)"
  by (simp add: write_version_file_def version_string_patch_too_long [OF assms])

text \<open>
  Claim C8 says that the marker file, once written, holds a version string that parses
  back to the version written, for every version the system writes. A version with a
  component of more than 4300 digits cannot be formatted: \<^verbatim>\<open>write_version_file\<close> has
  emptied the marker file when \<^verbatim>\<open>version_string\<close> raises \<^verbatim>\<open>ValueError\<close>, and the file
  stays empty. Here for the version \<open>(1, 0, 10 ^ 4300)\<close>.
\<close>

theorem write_version_file_valid_counterexample:
  "write_version_file (1, 0, 10 ^ 4300) \<lparr>version_file = None, git_tags = []\<rparr> =
     (\<lparr>version_file = Some '''', git_tags = []\<rparr>, Inl ValueError) \<and>
   \<not> matches_version_pattern ''''"
proof -
  have a: "version_string (1, 0, 10 ^ 4300) = Inl ValueError"
    by (rule version_string_patch_too_long [unfolded max_str_digits_def, OF order_refl])
  have b: "write_version_file (1, 0, 10 ^ 4300) \<lparr>version_file = None, git_tags = []\<rparr> =
     (\<lparr>version_file = Some '''', git_tags = []\<rparr>, Inl ValueError)"
    unfolding write_version_file_def a by simp
  have c: "\<not> matches_version_pattern ''''"
    using matches_version_pattern_shape [of "''''"] by auto
  from b c show ?thesis by (rule conjI)
qed

text \<open>
  Claim C8, amended. After \<open>write_version_file\<close> has written a version of non-negative
  integers of at most 4300 digits each (that is, below \<open>10 ^ 4300\<close>), it has ended
  without an exception and the marker file holds a string that matches the version
  pattern as a whole and that \<open>parse_version\<close> parses back to the version written.
\<close>

theorem write_version_file_valid:
  "0 \<le> major \<Longrightarrow> major < 10 ^ 4300 \<Longrightarrow> 0 \<le> minor \<Longrightarrow> minor < 10 ^ 4300 \<Longrightarrow>
   0 \<le> patch \<Longrightarrow> patch < 10 ^ 4300 \<Longrightarrow>
   \<exists>s. write_version_file (major, minor, patch) w = (w\<lparr>version_file := Some s\<rparr>, Inr ()) \<and>
       matches_version_pattern s \<and> parse_version s = Inr (Some (major, minor, patch))"
  using write_version_file_in_range [unfolded max_str_digits_def, of major minor patch w]
  by blast

theorem write_version_file_valid_witness:
  "write_version_file (3, 4, 11) \<lparr>version_file = None, git_tags = []\<rparr> =
     (\<lparr>version_file = Some ''v3.4.11'', git_tags = []\<rparr>, Inr ()) \<and>
   matches_version_pattern ''v3.4.11'' \<and> parse_version ''v3.4.11'' = Inr (Some (3, 4, 11))"
proof -
  let ?w = "\<lparr>version_file = None, git_tags = []\<rparr>"
  have b: "(3::int) < 10 ^ 4300" "(4::int) < 10 ^ 4300" "(11::int) < 10 ^ 4300"
    by (rule below_limit, simp)+
  have p: "(0::int) \<le> 3" "(0::int) \<le> 4" "(0::int) \<le> 11" by simp_all
  from write_version_file_valid [OF p(1) b(1) p(2) b(2) p(3) b(3), of ?w]
  obtain s where s: "write_version_file (3, 4, 11) ?w = (?w\<lparr>version_file := Some s\<rparr>, Inr ())"
    and m: "matches_version_pattern s" and r: "parse_version s = Inr (Some (3, 4, 11))"
    by blast
  have "write_version_file (3, 4, 11) ?w = (\<lparr>version_file = Some ''v3.4.11'', git_tags = []\<rparr>, Inr ())"
    by code_simp
  with s have "s = ''v3.4.11''" by simp
  with s m r show ?thesis by simp
qed

text \<open>
  The marker file written without an exception is read back by \<open>get_current_version\<close>
  as the version written: a string of the version pattern is a single line without
  surrounding white space.
\<close>

lemma splitlines_from_one_line:
  "list_all (\<lambda>c. \<not> is_linebreak c) s \<Longrightarrow> cur \<noteq> [] \<or> s \<noteq> [] \<Longrightarrow>
   splitlines_from cur s = [cur @ s]"
  by (induction cur s rule: splitlines_from.induct) (auto simp: is_linebreak_def Let_def)

lemma splitlines_one_line:
  "list_all (\<lambda>c. \<not> is_linebreak c) s \<Longrightarrow> s \<noteq> [] \<Longrightarrow> splitlines s = [s]"
  by (simp add: splitlines_def splitlines_from_one_line)

lemma decimal_digits_no_linebreak:
  "decimal_digits a \<Longrightarrow> list_all (\<lambda>c. \<not> is_linebreak c) a"
  by (auto simp: decimal_digits_iff list_all_iff dest: digit_not_linebreak)

lemma version_pattern_one_line:
  assumes "matches_version_pattern s"
  shows "splitlines s = [s] \<and> strip s = s"
proof -
  from assms obtain a b c where d: "decimal_digits a" "decimal_digits b" "decimal_digits c"
    and s: "s = ''v'' @ a @ ''.'' @ b @ ''.'' @ c"
    unfolding matches_version_pattern_def by blast
  have p: "\<not> is_linebreak CHR ''v''" "\<not> is_linebreak CHR ''.''" "\<not> is_space CHR ''v''"
    by (simp_all add: is_linebreak_def is_space_def code_point_def)
  from d p have "list_all (\<lambda>c. \<not> is_linebreak c) s"
    by (simp add: s decimal_digits_no_linebreak)
  then have l: "splitlines s = [s]" by (rule splitlines_one_line) (simp add: s)
  from d(3) have "c \<noteq> []" "is_digit (last c)" by (auto simp: decimal_digits_iff list_all_iff)
  then have "\<not> is_space (last s)" by (auto simp: s dest: digit_not_space)
  moreover have "\<not> is_space (hd s)" using p by (simp add: s)
  moreover have "s \<noteq> []" by (simp add: s)
  ultimately have "strip s = s" by (intro strip_id)
  with l show ?thesis by simp
qed

lemma get_current_version_read_back:
  assumes "0 \<le> major" "major < 10 ^ max_str_digits"
    and "0 \<le> minor" "minor < 10 ^ max_str_digits"
    and "0 \<le> patch" "patch < 10 ^ max_str_digits"
  shows "get_current_version (version_file (fst (write_version_file (major, minor, patch) w))) =
           Inr (Some (major, minor, patch))"
proof -
  from write_version_file_in_range [OF assms, of w] obtain s where
    s: "write_version_file (major, minor, patch) w = (w\<lparr>version_file := Some s\<rparr>, Inr ())"
    and m: "matches_version_pattern s"
    and p: "parse_version s = Inr (Some (major, minor, patch))"
    by blast
  from m have "splitlines s = [s]" "strip s = s" by (simp_all add: version_pattern_one_line)
  with s p show ?thesis
    by (simp add: get_current_version_def index_def bind_err_def)
qed

section \<open>The resolver as a whole\<close>

text \<open>
  \<open>get_next_version\<close> is \<open>next_version\<close> at the current version and the versions of the
  tags. Parsing the tags raises nothing but the \<^verbatim>\<open>ValueError\<close> of \<^verbatim>\<open>int\<close>. A marker file
  that does not parse makes \<open>get_next_version\<close> raise: \<^verbatim>\<open>TypeError\<close> when the tags parse.
  Every version it returns has non-negative components.
\<close>

lemma parse_version_non_negative: "parse_version s = Inr (Some v) \<Longrightarrow> non_negative v"
  using parse_version_cases [of s] by (auto simp: non_negative_def split: if_splits)

lemma get_versions_non_negative:
  "get_versions tags = Inr vs \<Longrightarrow> list_all non_negative vs"
proof (induction tags arbitrary: vs)
  case Nil
  then show ?case by simp
next
  case (Cons tag tags)
  from Cons.prems obtain r rest where r: "parse_version tag = Inr r"
    and rest: "get_versions tags = Inr rest"
    and vs: "vs = (case r of Some v \<Rightarrow> v # rest | None \<Rightarrow> rest)"
    by (auto simp: bind_err_def split: sum.splits)
  from Cons.IH [OF rest] have "list_all non_negative rest" .
  with r vs show ?case
    by (cases r) (auto dest: parse_version_non_negative)
qed

lemma get_versions_error: "get_versions tags = Inl e \<Longrightarrow> e = ValueError"
proof (induction tags)
  case Nil
  then show ?case by simp
next
  case (Cons tag tags)
  then show ?case
    by (auto simp: bind_err_def split: sum.splits dest: parse_version_error)
qed

lemma get_current_version_non_negative:
  "get_current_version file = Inr (Some c) \<Longrightarrow> non_negative c"
  by (auto simp: get_current_version_def index_def bind_err_def non_negative_def
      split: option.splits if_splits dest: parse_version_non_negative)

lemma get_next_version_eq:
  "get_current_version (version_file w) = Inr (Some c) \<Longrightarrow>
   get_versions (git_tags w) = Inr vs \<Longrightarrow> get_next_version w = next_version c vs"
  by (simp add: get_next_version_def bind_err_def)

lemma none_current_version_TypeError:
  "get_versions tags = Inr vs \<Longrightarrow> none_current_version tags = TypeError"
proof (induction tags arbitrary: vs)
  case Nil
  show ?case by simp
next
  case (Cons tag tags)
  then show ?case
    by (auto simp: bind_err_def split: sum.splits option.splits)
qed

lemma none_current_version_cases:
  "none_current_version tags = TypeError \<or> none_current_version tags = ValueError"
proof (induction tags)
  case Nil
  show ?case by simp
next
  case (Cons tag tags)
  then show ?case
    by (auto split: sum.splits option.splits dest: parse_version_error)
qed

lemma get_next_version_malformed:
  "get_current_version (version_file w) = Inr None \<Longrightarrow>
   get_next_version w = Inl (none_current_version (git_tags w))"
  by (simp add: get_next_version_def bind_err_def)

lemma get_next_version_malformed_TypeError:
  "get_current_version (version_file w) = Inr None \<Longrightarrow> get_versions (git_tags w) = Inr vs \<Longrightarrow>
   get_next_version w = Inl TypeError"
  by (simp add: get_next_version_malformed none_current_version_TypeError)

lemma next_version_non_negative:
  assumes "non_negative c" "list_all non_negative vs" "next_version c vs = Inr v"
  shows "non_negative v"
proof -
  obtain M m p where c: "c = (M, m, p)" by (cases c) auto
  let ?Q = "{q. (M, m, q) \<in> set vs}"
  show ?thesis
  proof (cases "\<exists>q. (M, m, q) \<in> set vs")
    case False
    with assms show ?thesis by (auto simp: c next_version_eq non_negative_def)
  next
    case True
    then obtain q where q: "(M, m, q) \<in> set vs" by blast
    with assms(2) have "0 \<le> q" by (auto simp: list_all_iff non_negative_def)
    have "finite ?Q"
    proof -
      have "?Q \<subseteq> (\<lambda>v. snd (snd v)) ` set vs" by force
      then show ?thesis by (rule finite_subset) simp
    qed
    with q have "q \<le> Max ?Q" by (intro Max_ge) simp_all
    with \<open>0 \<le> q\<close> True assms show ?thesis by (auto simp: c next_version_eq non_negative_def)
  qed
qed

lemma get_next_version_non_negative:
  assumes "get_next_version w = Inr v"
  shows "non_negative v"
proof -
  from assms obtain c where c: "get_current_version (version_file w) = Inr (Some c)"
    by (auto simp: get_next_version_def bind_err_def split: sum.splits option.splits)
  with assms obtain vs where vs: "get_versions (git_tags w) = Inr vs"
    by (auto simp: get_next_version_def bind_err_def split: sum.splits)
  from assms have "next_version c vs = Inr v" by (simp add: get_next_version_eq [OF c vs])
  with get_current_version_non_negative [OF c] get_versions_non_negative [OF vs]
  show ?thesis by (rule next_version_non_negative)
qed

text \<open>
  The marker file written from the version that \<open>get_next_version\<close> returns is read back
  as that version by the next run, when its components have at most \<open>max_str_digits\<close>
  digits.
\<close>

lemma marker_file_invariant:
  assumes "get_next_version w = Inr (major, minor, patch)"
    and "major < 10 ^ max_str_digits" "minor < 10 ^ max_str_digits"
    "patch < 10 ^ max_str_digits"
  shows "get_current_version (version_file (fst (write_version_file (major, minor, patch) w))) =
           Inr (Some (major, minor, patch))"
proof -
  from get_next_version_non_negative [OF assms(1)] have "0 \<le> major" "0 \<le> minor" "0 \<le> patch"
    by (simp_all add: non_negative_def)
  with assms(2-4) show ?thesis by (intro get_current_version_read_back)
qed

text \<open>
  The resolver can return a version that cannot be formatted: with no marker file and
  the only tag \<^verbatim>\<open>v1.0.9...9\<close> of \<open>max_str_digits\<close> nines, the next version has a patch of
  \<open>max_str_digits + 1\<close> digits, and writing it leaves the marker file empty.
\<close>

lemma digits_value_nines: "int (digits_value (replicate k CHR ''9'')) = 10 ^ k - 1"
proof (induction k)
  case 0
  show ?case by (simp add: digits_value_def)
next
  case (Suc k)
  have "replicate (Suc k) CHR ''9'' = replicate k CHR ''9'' @ [CHR ''9'']"
    by (simp add: replicate_append_same)
  then have "digits_value (replicate (Suc k) CHR ''9'') =
      10 * digits_value (replicate k CHR ''9'') + 9"
    by (simp only: digits_value_snoc) (simp add: digit_value_def code_point_def)
  with Suc show ?case by simp
qed

lemma decimal_digits_nines: "0 < k \<Longrightarrow> decimal_digits (replicate k CHR ''9'')"
  by (simp add: decimal_digits_def list_all_iff)

lemma parse_version_nines:
  "parse_version (''v1.0.'' @ replicate max_str_digits CHR ''9'') =
     Inr (Some (1, 0, 10 ^ max_str_digits - 1))"
proof -
  have d: "decimal_digits ''1''" "decimal_digits ''0''"
    "decimal_digits (replicate max_str_digits CHR ''9'')"
    by (simp_all add: decimal_digits_nines max_str_digits_pos) (simp_all add: decimal_digits_def)
  have l: "\<not> max_str_digits < length ''1''" "\<not> max_str_digits < length ''0''"
    by (simp_all add: max_str_digits_def)
  have v: "int (digits_value ''1'') = 1" "int (digits_value ''0'') = 0"
    by (simp_all add: digits_value_def digit_value_def code_point_def)
  from parse_version_digits [OF d] l v show ?thesis
    by (simp add: digits_value_nines)
qed

lemma get_next_version_too_long:
  "get_next_version \<lparr>version_file = None,
     git_tags = [''v1.0.'' @ replicate max_str_digits CHR ''9'']\<rparr> =
     Inr (1, 0, 10 ^ max_str_digits)"
proof -
  let ?w = "\<lparr>version_file = None, git_tags = [''v1.0.'' @ replicate max_str_digits CHR ''9'']\<rparr>"
  have c: "get_current_version (version_file ?w) = Inr (Some (1, 0, 0))"
    by (simp add: get_current_version_def)
  have "get_versions [''v1.0.'' @ replicate max_str_digits CHR ''9''] =
      Inr [(1, 0, 10 ^ max_str_digits - 1)]"
    using parse_version_nines by (simp add: bind_err_def)
  then have vs: "get_versions (git_tags ?w) = Inr [(1, 0, 10 ^ max_str_digits - 1)]" by simp
  have "next_version (1, 0, 0) [(1, 0, 10 ^ max_str_digits - 1)] = Inr (1, 0, 10 ^ max_str_digits)"
    by (simp add: next_version_def py_max_def bind_err_def)
  with get_next_version_eq [OF c vs] show ?thesis by simp
qed

lemma write_next_version_too_long:
  "write_version_file (1, 0, 10 ^ max_str_digits) w =
     (w\<lparr>version_file := Some ''''\<rparr>, Inl ValueError)"
  by (rule write_version_file_too_long) (rule order_refl)

text \<open>
  The examples of the specification, computed from the marker file and the tag names.
\<close>

lemma get_next_version_examples:
  "get_next_version \<lparr>version_file = Some ''v1.2.0'',
     git_tags = [''v1.2.0'', ''v1.2.1'', ''v1.2.3'', ''v2.0.0'']\<rparr> = Inr (1, 2, 4)"
  "get_next_version \<lparr>version_file = Some ''v2.0.0'',
     git_tags = [''v1.2.0'', ''v1.2.1'']\<rparr> = Inr (2, 0, 0)"
  "get_next_version \<lparr>version_file = None,
     git_tags = [''v1.0.5'', ''v1.0.5'', ''v1.0.2'']\<rparr> = Inr (1, 0, 6)"
  "get_next_version \<lparr>version_file = Some ''v3.4.9'',
     git_tags = [''v3.4.9'', ''v3.4.10'', ''v3.5.0'']\<rparr> = Inr (3, 4, 11)"
  "get_next_version \<lparr>version_file = Some ''v3.4.9\<newline>'',
     git_tags = [''latest'', ''v3.4.9'']\<rparr> = Inr (3, 4, 10)"
  by code_simp+

end
